theory Spec2Isabelle
  imports Main "HOL-Library.Word"
begin

unbundle bit_operations_syntax

section \<open>UserInfoProvider.tsx: values\<close>

text \<open>
  A JavaScript string is a sequence of UTF-16 code units. The base64 text and the
  binary string of \<^verbatim>\<open>decodeBase64Data\<close> are inspected unit by unit, so they are
  lists of code units (every JavaScript string is such a list with units below 65536).
  Display text that the component only stores or compares with a literal
  (names, keys, notification messages) is a \<^typ>\<open>string\<close>.
\<close>

type_synonym jsstring = "nat list"

type_synonym bytes = "8 word list"

text \<open>
  Everything the component can see thrown. An \<^verbatim>\<open>AxiosError\<close> carries
  \<^verbatim>\<open>error.response\<close>, absent when no response arrived. \<^verbatim>\<open>response.data\<close> is
  either nullish (reading a property of it throws a \<^verbatim>\<open>TypeError\<close>) or a value whose
  \<^verbatim>\<open>detail\<close> property is a text or \<^verbatim>\<open>undefined\<close>.
\<close>

datatype body = Nullish | Payload "string option"

record axios_response =
  status :: nat
  data :: body

datatype js_error = AxiosError "axios_response option" | TypeError | RangeError | Error string

text \<open>The object URL that \<^verbatim>\<open>URL.createObjectURL\<close> hands out: the n-th allocation.\<close>

datatype url = BlobURL nat

record UserInfo =
  name :: "string option"
  openaiApiKey :: "string option"
  avatarUrl :: "url option"

record snack =
  variant :: string
  message :: "string option"

text \<open>
  What the component reads and writes: the React state \<^verbatim>\<open>userInfo\<close> of the provider
  (the store), the notifications handed to \<^verbatim>\<open>enqueueSnackbar\<close>, oldest first, and the
  browser's blob URL store (the bytes behind every object URL allocated so far).
\<close>

record world =
  store :: UserInfo
  snackbar :: "snack list"
  objectURLs :: "bytes list"

text \<open>
  The \<^verbatim>\<open>data\<close> of a successful response of \<^verbatim>\<open>api.getUserInfo()\<close> and of
  \<^verbatim>\<open>api.getAvatar()\<close>, as the component's types have them: name and key may be
  \<^verbatim>\<open>null\<close>, the blob is a string.
\<close>

record profile_data =
  data_name :: "string option"
  openai_api_key :: "string option"

record avatar_data =
  data_blob :: jsstring

section \<open>The \<^verbatim>\<open>buffer\<close> package: \<^verbatim>\<open>Buffer.from(text, "base64")\<close>\<close>

text \<open>
  \<^verbatim>\<open>Buffer\<close> is imported from the npm package \<^verbatim>\<open>buffer\<close>, which decodes base64 with
  its dependency base64-js. Both are libraries outside the repository; the definitions
  of this section follow their sources, function by function.
  \<^verbatim>\<open>Buffer.from(s, "base64")\<close> holds the bytes \<^verbatim>\<open>base64.toByteArray(base64clean(s))\<close>:
  the package cleans the text and hands it to base64-js.

  base64-js builds two tables from
  \<^verbatim>\<open>code = 'ABCDEFGHIJKLMNOPQRSTUVWXYZabcdefghijklmnopqrstuvwxyz0123456789+/'\<close>:
  \<^verbatim>\<open>lookup[i] = code[i]\<close> and \<^verbatim>\<open>revLookup[code.charCodeAt(i)] = i\<close>, then adds the
  URL-safe characters, \<^verbatim>\<open>revLookup['-'] = 62\<close> and \<^verbatim>\<open>revLookup['_'] = 63\<close>.
  An entry never written is \<^verbatim>\<open>undefined\<close>, which the bit operations read as 0.
\<close>

definition code :: jsstring where
  "code = map of_char ''ABCDEFGHIJKLMNOPQRSTUVWXYZabcdefghijklmnopqrstuvwxyz0123456789+/''"

definition revLookup :: "nat \<Rightarrow> nat" where
  "revLookup c =
     (case map_of (zip code [0..<length code] @ [(45, 62), (95, 63)]) c of
        Some i \<Rightarrow> i
      | None \<Rightarrow> 0)"

text \<open>
  \<^verbatim>\<open>b64.charCodeAt(i)\<close> looked up in \<^verbatim>\<open>revLookup\<close>; past the end of the string
  \<^verbatim>\<open>charCodeAt\<close> is \<^verbatim>\<open>NaN\<close> and the entry is \<^verbatim>\<open>undefined\<close>.
\<close>

definition revAt :: "jsstring \<Rightarrow> nat \<Rightarrow> nat" where
  "revAt b64 i = (if i < length b64 then revLookup (b64 ! i) else 0)"

text \<open>
  \<^verbatim>\<open>String.prototype.trim\<close> removes white space and line terminators from both ends.
\<close>

definition isWhiteSpace :: "nat \<Rightarrow> bool" where
  "isWhiteSpace c \<longleftrightarrow>
     c \<in> {9, 10, 11, 12, 13, 32, 160, 5760, 8232, 8233, 8239, 8287, 12288, 65279}
     \<or> (8192 \<le> c \<and> c \<le> 8202)"

definition trim :: "jsstring \<Rightarrow> jsstring" where
  "trim str = rev (dropWhile isWhiteSpace (rev (dropWhile isWhiteSpace str)))"

text \<open>
  The characters that \<^verbatim>\<open>INVALID_BASE64_RE = /[^+/0-9A-Za-z-_]/g\<close> leaves in place.
\<close>

definition isBase64Char :: "nat \<Rightarrow> bool" where
  "isBase64Char c \<longleftrightarrow>
     c = 43 \<or> c = 47 \<or> (48 \<le> c \<and> c \<le> 57) \<or> (65 \<le> c \<and> c \<le> 90)
     \<or> (97 \<le> c \<and> c \<le> 122) \<or> c = 45 \<or> c = 95"

text \<open>\<^verbatim>\<open>while (str.length % 4 !== 0) str = str + '='\<close>\<close>

function padToFour :: "jsstring \<Rightarrow> jsstring" where
  "padToFour str = (if length str mod 4 \<noteq> 0 then padToFour (str @ [61]) else str)"
  by pat_completeness auto
termination
proof (relation "measure (\<lambda>str. 3 - (length str + 3) mod 4)")
  show "wf (measure (\<lambda>str. 3 - (length str + 3) mod 4))" by simp
next
  fix str :: jsstring
  assume "length str mod 4 \<noteq> 0"
  then have "3 - (Suc (length str) + 3) mod 4 < 3 - (length str + 3) mod 4"
    by presburger
  then show "(str @ [61], str) \<in> measure (\<lambda>str. 3 - (length str + 3) mod 4)"
    by simp
qed

declare padToFour.simps [simp del]

text \<open>
  \<^verbatim>\<open>base64clean\<close>: keep what stands before the first \<^verbatim>\<open>'='\<close> (\<^verbatim>\<open>str.split('=')[0]\<close>),
  trim it, delete every character outside the alphabet, give up on fewer than two
  characters, and pad with \<^verbatim>\<open>'='\<close> to a multiple of four.
\<close>

definition base64clean :: "jsstring \<Rightarrow> jsstring" where
  "base64clean str =
     (let str1 = takeWhile (\<lambda>c. c \<noteq> 61) str;
          str2 = filter isBase64Char (trim str1)
      in if length str2 < 2 then [] else padToFour str2)"

text \<open>
  \<^verbatim>\<open>getLens\<close> of base64-js: it throws on a length that is no multiple of four;
  \<^verbatim>\<open>validLen\<close> is the index of the first \<^verbatim>\<open>'='\<close> (the length when there is none).
\<close>

definition indexOf :: "jsstring \<Rightarrow> nat \<Rightarrow> nat option" where
  "indexOf str c = (if c \<in> set str then Some (length (takeWhile (\<lambda>d. d \<noteq> c) str)) else None)"

definition getLens :: "jsstring \<Rightarrow> js_error + nat \<times> nat" where
  "getLens b64 =
     (let len = length b64 in
      if len mod 4 > 0 then Inl (Error ''Invalid string. Length must be a multiple of 4'')
      else
        let validLen = (case indexOf b64 61 of None \<Rightarrow> len | Some k \<Rightarrow> k);
            placeHoldersLen = (if validLen = len then 0 else 4 - validLen mod 4)
        in Inr (validLen, placeHoldersLen))"

text \<open>
  \<^verbatim>\<open>_byteLength\<close>: the sum is a multiple of four, so the division is exact; the
  difference can be negative.
\<close>

definition byteLength :: "nat \<Rightarrow> nat \<Rightarrow> int" where
  "byteLength validLen placeHoldersLen =
     int ((validLen + placeHoldersLen) * 3 div 4) - int placeHoldersLen"

text \<open>
  The main loop of \<^verbatim>\<open>toByteArray\<close>,
  \<^verbatim>\<open>for (i = 0; i < len; i += 4)\<close>: four characters give 24 bits, written as three
  bytes at \<^verbatim>\<open>curByte\<close>. It returns \<^verbatim>\<open>i\<close>, the array and \<^verbatim>\<open>curByte\<close> as the loop
  leaves them. The table entries are below 64, so the 32-bit operations of JavaScript
  do not overflow and are those of the natural numbers. A typed array ignores a write
  past its end, as list update does.
\<close>

function quads :: "jsstring \<Rightarrow> int \<Rightarrow> nat \<Rightarrow> bytes \<Rightarrow> nat \<Rightarrow> nat \<times> bytes \<times> nat" where
  "quads b64 len i arr curByte =
     (if int i < len then
        let tmp = push_bit 18 (revAt b64 i) OR push_bit 12 (revAt b64 (i + 1))
                  OR push_bit 6 (revAt b64 (i + 2)) OR revAt b64 (i + 3)
        in quads b64 len (i + 4)
             (arr[curByte := of_nat (drop_bit 16 tmp AND 255),
                  curByte + 1 := of_nat (drop_bit 8 tmp AND 255),
                  curByte + 2 := of_nat (tmp AND 255)])
             (curByte + 3)
      else (i, arr, curByte))"
  by pat_completeness auto
termination
  by (relation "measure (\<lambda>(b64, len, i, arr, curByte). nat (len - int i))") simp_all

declare quads.simps [simp del]

text \<open>
  \<^verbatim>\<open>toByteArray\<close>: \<^verbatim>\<open>new Uint8Array(n)\<close> throws a \<^verbatim>\<open>RangeError\<close> on a negative
  length and gives \<^verbatim>\<open>n\<close> zero bytes otherwise. After the main loop, two or three
  characters before the padding give one or two more bytes.
\<close>

definition toByteArray :: "jsstring \<Rightarrow> js_error + bytes" where
  "toByteArray b64 =
     (case getLens b64 of
        Inl e \<Rightarrow> Inl e
      | Inr (validLen, placeHoldersLen) \<Rightarrow>
          if byteLength validLen placeHoldersLen < 0 then Inl RangeError
          else
          let arr = replicate (nat (byteLength validLen placeHoldersLen)) 0;
              len = (if placeHoldersLen > 0 then int validLen - 4 else int validLen);
              (i, arr, curByte) = quads b64 len 0 arr 0;
              (arr, curByte) =
                (if placeHoldersLen = 2 then
                   let tmp = push_bit 2 (revAt b64 i) OR drop_bit 4 (revAt b64 (i + 1))
                   in (arr[curByte := of_nat (tmp AND 255)], curByte + 1)
                 else (arr, curByte));
              (arr, curByte) =
                (if placeHoldersLen = 1 then
                   let tmp = push_bit 10 (revAt b64 i) OR push_bit 4 (revAt b64 (i + 1))
                             OR drop_bit 2 (revAt b64 (i + 2))
                   in (arr[curByte := of_nat (drop_bit 8 tmp AND 255),
                           curByte + 1 := of_nat (tmp AND 255)], curByte + 2)
                 else (arr, curByte))
          in Inr arr)"

definition Buffer_from_base64 :: "jsstring \<Rightarrow> js_error + bytes" where
  "Buffer_from_base64 string = toByteArray (base64clean string)"

text \<open>\<^verbatim>\<open>buf.toString("binary")\<close>: one character per byte, its code the byte.\<close>

definition toString_binary :: "bytes \<Rightarrow> jsstring" where
  "toString_binary buf = map unat buf"

section \<open>\<^verbatim>\<open>decodeBase64Data\<close>\<close>

text \<open>
  \<^verbatim>\<open>byteNumbers[i] = v\<close> on a JavaScript array: inside the array the element is
  replaced; past its end the array grows, the gap filled with holes.
\<close>

definition assign :: "nat option list \<Rightarrow> nat \<Rightarrow> nat \<Rightarrow> nat option list" where
  "assign xs i v =
     (if i < length xs then xs[i := Some v]
      else xs @ replicate (i - length xs) None @ [Some v])"

text \<open>
  \<^verbatim>\<open>for (let i = 0; i < byteCharacters.length; i++)
    byteNumbers[i] = byteCharacters.charCodeAt(i)\<close>
\<close>

function charCodes :: "jsstring \<Rightarrow> nat \<Rightarrow> nat option list \<Rightarrow> nat option list" where
  "charCodes byteCharacters i byteNumbers =
     (if i < length byteCharacters
      then charCodes byteCharacters (i + 1) (assign byteNumbers i (byteCharacters ! i))
      else byteNumbers)"
  by pat_completeness auto
termination
  by (relation "measure (\<lambda>(byteCharacters, i, byteNumbers). length byteCharacters - i)") simp_all

declare charCodes.simps [simp del]

text \<open>
  \<^verbatim>\<open>Uint8Array.from\<close> converts every element to an unsigned byte: a number modulo
  256, a hole (read as \<^verbatim>\<open>undefined\<close>) to 0.
\<close>

definition Uint8Array_from :: "nat option list \<Rightarrow> bytes" where
  "Uint8Array_from xs = map (\<lambda>x. case x of None \<Rightarrow> 0 | Some n \<Rightarrow> of_nat n) xs"

text \<open>
  A computation of the component takes the world and returns its completion (a thrown
  error or a value) with the world as it leaves it.
\<close>

type_synonym 'a js = "world \<Rightarrow> (js_error + 'a) \<times> world"

text \<open>
  \<^verbatim>\<open>URL.createObjectURL(blob)\<close> registers the blob in the blob URL store and returns a
  URL that no earlier call returned.
\<close>

definition createObjectURL :: "bytes \<Rightarrow> url js" where
  "createObjectURL blob w =
     (Inr (BlobURL (length (objectURLs w))), w\<lparr>objectURLs := objectURLs w @ [blob]\<rparr>)"

text \<open>The bytes an object URL refers to, when it has been allocated.\<close>

fun referenced :: "world \<Rightarrow> url \<Rightarrow> bytes option" where
  "referenced w (BlobURL n) = (if n < length (objectURLs w) then Some (objectURLs w ! n) else None)"

definition decodeBase64Data :: "jsstring \<Rightarrow> url js" where
  "decodeBase64Data base64Data w =
     (case Buffer_from_base64 base64Data of
        Inl e \<Rightarrow> (Inl e, w)
      | Inr buf \<Rightarrow>
          let byteCharacters = toString_binary buf;
              byteNumbers = replicate (length byteCharacters) None;
              byteNumbers = charCodes byteCharacters 0 byteNumbers;
              byteArray = Uint8Array_from byteNumbers;
              blob = byteArray
          in createObjectURL blob w)"

section \<open>\<^verbatim>\<open>UserInfoProvider\<close>\<close>

text \<open>
  \<^verbatim>\<open>setUserInfo(value)\<close> replaces the whole state; the component never passes an
  updater function. \<^verbatim>\<open>enqueueSnackbar\<close> appends a notification.
\<close>

definition setUserInfo :: "UserInfo \<Rightarrow> world \<Rightarrow> world" where
  "setUserInfo v w = w\<lparr>store := v\<rparr>"

definition enqueueSnackbar :: "snack \<Rightarrow> world \<Rightarrow> world" where
  "enqueueSnackbar s w = w\<lparr>snackbar := snackbar w @ [s]\<rparr>"

text \<open>
  While an \<^verbatim>\<open>async\<close> function waits at an \<^verbatim>\<open>await\<close>, other tasks run. What they do
  to the store is a function on its value.
\<close>

definition interleave :: "(UserInfo \<Rightarrow> UserInfo) \<Rightarrow> world \<Rightarrow> world" where
  "interleave during w = w\<lparr>store := during (store w)\<rparr>"

text \<open>
  The three functions below are closures of one render of \<^verbatim>\<open>UserInfoProvider\<close>: the
  identifier \<^verbatim>\<open>userInfo\<close> in their bodies is the constant that \<^verbatim>\<open>useState\<close> returned
  in that render. It is their first argument here.

  \<^verbatim>\<open>setAvatarBlob\<close>: decode, wait one tick, write the render's \<^verbatim>\<open>userInfo\<close> with the
  new URL.
\<close>

definition setAvatarBlob :: "UserInfo \<Rightarrow> jsstring \<Rightarrow> (UserInfo \<Rightarrow> UserInfo) \<Rightarrow> unit js" where
  "setAvatarBlob userInfo blob during w =
     (case decodeBase64Data blob w of
        (Inl e, w) \<Rightarrow> (Inl e, w)
      | (Inr url, w) \<Rightarrow>
          let w = interleave during w
          in (Inr (), setUserInfo (userInfo\<lparr>avatarUrl := Some url\<rparr>) w))"

text \<open>
  \<^verbatim>\<open>getAvatarUrl\<close>: the outcome of \<^verbatim>\<open>api.getAvatar()\<close> is an argument. In the
  \<^verbatim>\<open>catch\<close> block, \<^verbatim>\<open>error.response?.status\<close> and \<^verbatim>\<open>error.response?.data.detail\<close>
  are \<^verbatim>\<open>undefined\<close> without a response; with a response whose \<^verbatim>\<open>data\<close> is nullish
  the second throws, before \<^verbatim>\<open>enqueueSnackbar\<close> is called.
\<close>

definition response_detail :: "axios_response option \<Rightarrow> js_error + string option" where
  "response_detail response =
     (case response of
        None \<Rightarrow> Inr None
      | Some r \<Rightarrow> (case data r of Nullish \<Rightarrow> Inl TypeError | Payload detail \<Rightarrow> Inr detail))"

fun isAxiosError :: "js_error \<Rightarrow> bool" where
  "isAxiosError (AxiosError _) = True"
| "isAxiosError _ = False"

fun response :: "js_error \<Rightarrow> axios_response option" where
  "response (AxiosError r) = r"
| "response _ = None"

definition getAvatarUrl :: "js_error + avatar_data \<Rightarrow> (UserInfo \<Rightarrow> UserInfo) \<Rightarrow> url option js" where
  "getAvatarUrl getAvatar during w =
     (let w = interleave during w in
      case (case getAvatar of
              Inl e \<Rightarrow> (Inl e, w)
            | Inr response_data \<Rightarrow> decodeBase64Data (data_blob response_data) w) of
        (Inr url, w) \<Rightarrow> (Inr (Some url), w)
      | (Inl error, w) \<Rightarrow>
          if isAxiosError error then
            if map_option status (response error) \<noteq> Some 404 then
              (case response_detail (response error) of
                 Inl e \<Rightarrow> (Inl e, w)
               | Inr detail \<Rightarrow>
                   (Inr None, enqueueSnackbar \<lparr>variant = ''error'', message = detail\<rparr> w))
            else (Inr None, w)
          else (Inr None, w))"

text \<open>
  \<^verbatim>\<open>getUserInfo\<close>: the outcomes of the two requests are arguments, and so is what
  other tasks do to the store while the function waits for each.
\<close>

definition getUserInfo ::
  "UserInfo \<Rightarrow> js_error + profile_data \<Rightarrow> (UserInfo \<Rightarrow> UserInfo) \<Rightarrow>
   js_error + avatar_data \<Rightarrow> (UserInfo \<Rightarrow> UserInfo) \<Rightarrow> unit js" where
  "getUserInfo userInfo getUserInfo_result during1 getAvatar during2 w =
     (let w = interleave during1 w in
      case (case getUserInfo_result of
              Inl e \<Rightarrow> (Inl e, w)
            | Inr response_data \<Rightarrow>
                (case getAvatarUrl getAvatar during2 w of
                   (Inl e, w) \<Rightarrow> (Inl e, w)
                 | (Inr avatarUrl', w) \<Rightarrow>
                     (Inr (),
                      setUserInfo
                        \<lparr>name = data_name response_data,
                         openaiApiKey = openai_api_key response_data,
                         avatarUrl = (if avatarUrl' \<noteq> None then avatarUrl' else avatarUrl userInfo)\<rparr>
                        w))) of
        (Inr u, w) \<Rightarrow> (Inr u, w)
      | (Inl _, w) \<Rightarrow>
          (Inr (), enqueueSnackbar \<lparr>variant = ''error'', message = Some ''Error getting user info''\<rparr> w))"

text \<open>
  The effect \<^verbatim>\<open>useEffect(() => { if (isHealthy) getUserInfo() }, [isHealthy])\<close> calls
  the \<^verbatim>\<open>getUserInfo\<close> of the render that scheduled it; that render's \<^verbatim>\<open>userInfo\<close> is
  the store's value when the effect runs.
\<close>

definition sync ::
  "js_error + profile_data \<Rightarrow> (UserInfo \<Rightarrow> UserInfo) \<Rightarrow>
   js_error + avatar_data \<Rightarrow> (UserInfo \<Rightarrow> UserInfo) \<Rightarrow> unit js" where
  "sync getUserInfo_result during1 getAvatar during2 w =
     getUserInfo (store w) getUserInfo_result during1 getAvatar during2 w"

text \<open>
  \<^verbatim>\<open>useEffect(effect, [isHealthy])\<close> runs the effect after the first render and after
  every render whose \<^verbatim>\<open>isHealthy\<close> differs from the previous render's. The effect body
  calls \<^verbatim>\<open>getUserInfo\<close> when \<^verbatim>\<open>isHealthy\<close> holds. \<^verbatim>\<open>getUserInfo_calls\<close> counts the calls
  over the values of \<^verbatim>\<open>isHealthy\<close> in the provider's successive renders, the first
  render first; the first argument of \<^verbatim>\<open>renders\<close> is the dependency of the previous
  render, absent before the component is mounted.
\<close>

definition depsChanged :: "bool option \<Rightarrow> bool \<Rightarrow> bool" where
  "depsChanged prev isHealthy = (case prev of None \<Rightarrow> True | Some b \<Rightarrow> b \<noteq> isHealthy)"

definition effect :: "bool \<Rightarrow> nat" where
  "effect isHealthy = (if isHealthy then 1 else 0)"

fun renders :: "bool option \<Rightarrow> bool list \<Rightarrow> nat" where
  "renders prev [] = 0"
| "renders prev (isHealthy # later) =
     (if depsChanged prev isHealthy then effect isHealthy else 0) + renders (Some isHealthy) later"

definition getUserInfo_calls :: "bool list \<Rightarrow> nat" where
  "getUserInfo_calls signal = renders None signal"

text \<open>The number of places where a sequence goes from false to true.\<close>

fun risingEdges :: "bool list \<Rightarrow> nat" where
  "risingEdges (a # b # rest) = (if \<not> a \<and> b then 1 else 0) + risingEdges (b # rest)"
| "risingEdges _ = 0"

subsection \<open>The context\<close>

text \<open>
  A context value is the triple \<^verbatim>\<open>[userInfo, setUserInfo, setAvatarBlob]\<close>. The two
  functions are closures: the state setter of React or the no-op of the default value,
  and \<^verbatim>\<open>setAvatarBlob\<close> with the \<^verbatim>\<open>userInfo\<close> of the render that created it or the
  asynchronous no-op of the default value. \<^verbatim>\<open>None\<close> as a context stands for
  \<^verbatim>\<open>undefined\<close>.
\<close>

datatype dispatch = NoopDispatch | SetUserInfo

datatype avatar_setter = NoopAsync | SetAvatarBlob UserInfo

type_synonym UserInfoContextType = "UserInfo option \<times> dispatch \<times> avatar_setter"

definition UserInfoContext :: "UserInfoContextType option" where
  "UserInfoContext = Some (None, NoopDispatch, NoopAsync)"

text \<open>
  The value the provider passes down in a render whose state is \<^verbatim>\<open>userInfo\<close>.
\<close>

definition Provider_value :: "UserInfo \<Rightarrow> UserInfoContextType option" where
  "Provider_value userInfo = Some (Some userInfo, SetUserInfo, SetAvatarBlob userInfo)"

text \<open>
  \<^verbatim>\<open>useContext\<close> returns the value of the nearest enclosing provider, and the default
  value of \<^verbatim>\<open>createContext\<close> when there is none.
\<close>

definition useContext :: "'a \<Rightarrow> 'a option \<Rightarrow> 'a" where
  "useContext defaultValue nearest = (case nearest of None \<Rightarrow> defaultValue | Some v \<Rightarrow> v)"

text \<open>
  \<^verbatim>\<open>useUserInfo\<close>, called below a \<^verbatim>\<open>UserInfoProvider\<close> whose current render has the
  given state, or below none.
\<close>

definition useUserInfo :: "UserInfo option \<Rightarrow> js_error + UserInfoContextType" where
  "useUserInfo enclosing =
     (let context = useContext UserInfoContext (map_option Provider_value enclosing) in
      case context of
        None \<Rightarrow> Inl (Error ''useUserInfo must be used within a UserInfoProvider'')
      | Some c \<Rightarrow> Inr c)"

text \<open>Calling the third component of a context value.\<close>

fun call :: "avatar_setter \<Rightarrow> jsstring \<Rightarrow> (UserInfo \<Rightarrow> UserInfo) \<Rightarrow> unit js" where
  "call NoopAsync blob during w = (Inr (), w)"
| "call (SetAvatarBlob userInfo) blob during w = setAvatarBlob userInfo blob during w"

section \<open>Base64 as the specification means it\<close>

text \<open>
  The base64 text that encodes a byte sequence (RFC 4648, section 4, with padding):
  three bytes give four characters of the alphabet; one or two remaining bytes give
  two or three characters and \<^verbatim>\<open>'='\<close> up to four.
\<close>

fun base64_encode :: "bytes \<Rightarrow> jsstring" where
  "base64_encode (a # b # c # rest) =
     [code ! (unat a div 4),
      code ! (unat a mod 4 * 16 + unat b div 16),
      code ! (unat b mod 16 * 4 + unat c div 64),
      code ! (unat c mod 64)] @ base64_encode rest"
| "base64_encode [a, b] =
     [code ! (unat a div 4),
      code ! (unat a mod 4 * 16 + unat b div 16),
      code ! (unat b mod 16 * 4),
      61]"
| "base64_encode [a] =
     [code ! (unat a div 4),
      code ! (unat a mod 4 * 16),
      61,
      61]"
| "base64_encode [] = []"

section \<open>Example values\<close>

text \<open>
  The state \<^verbatim>\<open>useState\<close> starts with, the world right after the provider is mounted,
  a profile response, and a world in which an earlier sync has succeeded.
\<close>

definition no_avatar :: UserInfo where
  "no_avatar = \<lparr>name = None, openaiApiKey = None, avatarUrl = None\<rparr>"

definition mounted :: world where
  "mounted = \<lparr>store = no_avatar, snackbar = [], objectURLs = []\<rparr>"

definition ann :: profile_data where
  "ann = \<lparr>data_name = Some ''Ann'', openai_api_key = Some ''sk-123''\<rparr>"

definition ann_world :: world where
  "ann_world =
     \<lparr>store = \<lparr>name = Some ''Ann'', openaiApiKey = Some ''sk-123'', avatarUrl = Some (BlobURL 0)\<rparr>,
      snackbar = [],
      objectURLs = [[137, 80, 78, 71]]\<rparr>"

section \<open>The decoder never throws\<close>

lemma padToFour_length: "length (padToFour str) mod 4 = 0"
  by (induction str rule: padToFour.induct) (subst padToFour.simps, simp)

lemma base64clean_length: "length (base64clean str) mod 4 = 0"
  by (simp add: base64clean_def Let_def padToFour_length)

lemma padToFour_pads: "\<exists>k. padToFour str = str @ replicate k 61"
proof (induction str rule: padToFour.induct)
  case (1 str)
  show ?case
  proof (cases "length str mod 4 \<noteq> 0")
    case True
    with 1 obtain k where "padToFour (str @ [61]) = (str @ [61]) @ replicate k 61" by blast
    with True have "padToFour str = str @ replicate (Suc k) 61"
      by (subst padToFour.simps) simp
    then show ?thesis by blast
  next
    case False
    then have "padToFour str = str @ replicate 0 61" by (subst padToFour.simps) simp
    then show ?thesis by blast
  qed
qed

lemma not_valid_61: "\<not> isBase64Char 61"
  by (simp add: isBase64Char_def)

lemma getLens_padded:
  assumes "61 \<notin> set s" and "length (s @ replicate k 61) mod 4 = 0"
  shows "getLens (s @ replicate k 61) =
           Inr (length s, if k = 0 then 0 else 4 - length s mod 4)"
proof (cases k)
  case 0
  with assms show ?thesis by (simp add: getLens_def indexOf_def)
next
  case (Suc j)
  have "takeWhile (\<lambda>d. d \<noteq> 61) (s @ replicate k 61)
        = s @ takeWhile (\<lambda>d. d \<noteq> 61) (replicate k 61)"
    using assms(1) by (intro takeWhile_append2) auto
  then have "takeWhile (\<lambda>d. d \<noteq> 61) (s @ replicate k 61) = s"
    using Suc by simp
  with assms Suc show ?thesis by (simp add: getLens_def indexOf_def Let_def)
qed

lemma byteLength_nonneg: "2 \<le> validLen \<Longrightarrow> ph \<le> 4 \<Longrightarrow> 0 \<le> byteLength validLen ph"
  unfolding byteLength_def by presburger

lemma getLens_clean:
  "\<exists>validLen ph. getLens (base64clean str) = Inr (validLen, ph) \<and> 0 \<le> byteLength validLen ph"
proof -
  let ?s = "filter isBase64Char (trim (takeWhile (\<lambda>c. c \<noteq> 61) str))"
  show ?thesis
  proof (cases "length ?s < 2")
    case True
    then have "base64clean str = []" by (simp add: base64clean_def Let_def)
    then show ?thesis by (simp add: getLens_def indexOf_def byteLength_def)
  next
    case False
    then have c: "base64clean str = padToFour ?s" by (simp add: base64clean_def Let_def)
    obtain k where k: "padToFour ?s = ?s @ replicate k 61" using padToFour_pads by blast
    have "61 \<notin> set ?s" using not_valid_61 by auto
    moreover have "length (?s @ replicate k 61) mod 4 = 0"
      using padToFour_length [of ?s] by (simp only: k)
    ultimately have "getLens (?s @ replicate k 61) =
        Inr (length ?s, if k = 0 then 0 else 4 - length ?s mod 4)"
      by (rule getLens_padded)
    moreover have "0 \<le> byteLength (length ?s) (if k = 0 then 0 else 4 - length ?s mod 4)"
      using False by (intro byteLength_nonneg) simp_all
    ultimately show ?thesis by (simp only: c k) blast
  qed
qed

lemma toByteArray_total:
  "getLens b64 = Inr (validLen, ph) \<Longrightarrow> 0 \<le> byteLength validLen ph \<Longrightarrow>
   \<exists>buf. toByteArray b64 = Inr buf"
  by (simp add: toByteArray_def Let_def split: prod.splits)

lemma Buffer_from_base64_total: "\<exists>buf. Buffer_from_base64 string = Inr buf"
  using getLens_clean [of string] toByteArray_total
  unfolding Buffer_from_base64_def by blast

lemma charCodes_loop:
  "i \<le> length s \<Longrightarrow> length xs = length s \<Longrightarrow>
   charCodes s i xs = take i xs @ map Some (drop i s)"
proof (induction s i xs rule: charCodes.induct)
  case (1 s i xs)
  show ?case
  proof (cases "i < length s")
    case True
    have "charCodes s i xs = charCodes s (i + 1) (assign xs i (s ! i))"
      using True by (subst charCodes.simps) simp
    also have "\<dots> = take (i + 1) (assign xs i (s ! i)) @ map Some (drop (i + 1) s)"
      using True "1.prems" by (intro "1.IH") (simp_all add: assign_def)
    also have "take (i + 1) (assign xs i (s ! i)) = take i xs @ [Some (s ! i)]"
      using True "1.prems" by (simp add: assign_def take_Suc_conv_app_nth)
    also have "(take i xs @ [Some (s ! i)]) @ map Some (drop (i + 1) s) = take i xs @ map Some (drop i s)"
      using True by (simp add: Cons_nth_drop_Suc [symmetric])
    finally show ?thesis .
  next
    case False
    with "1.prems" show ?thesis by (subst charCodes.simps) simp
  qed
qed

lemma charCodes_all: "charCodes s 0 (replicate (length s) None) = map Some s"
  using charCodes_loop [of 0 s "replicate (length s) None"] by simp

lemma Uint8Array_roundtrip:
  "Uint8Array_from (charCodes (toString_binary buf) 0 (replicate (length (toString_binary buf)) None)) = buf"
proof -
  have "Uint8Array_from (map Some (toString_binary buf)) = buf"
    by (simp add: Uint8Array_from_def toString_binary_def o_def)
  then show ?thesis by (simp only: charCodes_all)
qed

lemma decodeBase64Data_eq:
  "decodeBase64Data base64Data w =
     (case Buffer_from_base64 base64Data of
        Inl e \<Rightarrow> (Inl e, w)
      | Inr buf \<Rightarrow> createObjectURL buf w)"
  by (simp add: decodeBase64Data_def Let_def Uint8Array_roundtrip split: sum.splits)

lemma decodeBase64Data_total:
  "\<exists>buf. decodeBase64Data base64Data w =
     (Inr (BlobURL (length (objectURLs w))), w\<lparr>objectURLs := objectURLs w @ [buf]\<rparr>)"
  using Buffer_from_base64_total [of base64Data]
  by (auto simp: decodeBase64Data_eq createObjectURL_def)

section \<open>The sync procedure\<close>

lemma getUserInfo_profile_failure:
  "getUserInfo userInfo (Inl e) during1 getAvatar during2 w =
     (Inr (), enqueueSnackbar \<lparr>variant = ''error'', message = Some ''Error getting user info''\<rparr>
                (interleave during1 w))"
  by (simp add: getUserInfo_def)

lemma getAvatarUrl_404:
  "status r = 404 \<Longrightarrow>
   getAvatarUrl (Inl (AxiosError (Some r))) during w = (Inr None, interleave during w)"
  by (simp add: getAvatarUrl_def)

lemma getAvatarUrl_not_axios:
  "\<not> isAxiosError e \<Longrightarrow> getAvatarUrl (Inl e) during w = (Inr None, interleave during w)"
  by (simp add: getAvatarUrl_def)

lemma getAvatarUrl_no_response:
  "getAvatarUrl (Inl (AxiosError None)) during w =
     (Inr None, enqueueSnackbar \<lparr>variant = ''error'', message = None\<rparr> (interleave during w))"
  by (simp add: getAvatarUrl_def response_detail_def)

lemma getAvatarUrl_detail:
  "status r \<noteq> 404 \<Longrightarrow> data r = Payload detail \<Longrightarrow>
   getAvatarUrl (Inl (AxiosError (Some r))) during w =
     (Inr None, enqueueSnackbar \<lparr>variant = ''error'', message = detail\<rparr> (interleave during w))"
  by (simp add: getAvatarUrl_def response_detail_def)

lemma getAvatarUrl_nullish:
  "status r \<noteq> 404 \<Longrightarrow> data r = Nullish \<Longrightarrow>
   getAvatarUrl (Inl (AxiosError (Some r))) during w = (Inl TypeError, interleave during w)"
  by (simp add: getAvatarUrl_def response_detail_def)

lemma getAvatarUrl_success:
  "\<exists>buf. getAvatarUrl (Inr response_data) during w =
     (Inr (Some (BlobURL (length (objectURLs w)))),
      (interleave during w)\<lparr>objectURLs := objectURLs w @ [buf]\<rparr>)"
  using decodeBase64Data_total [of "data_blob response_data" "interleave during w"]
  by (auto simp: getAvatarUrl_def interleave_def)

lemma getAvatarUrl_store:
  "store (snd (getAvatarUrl getAvatar during w)) = during (store w)"
proof (cases getAvatar)
  case (Inl e)
  then show ?thesis
    by (simp add: getAvatarUrl_def interleave_def enqueueSnackbar_def Let_def split: sum.splits)
next
  case (Inr response_data)
  with getAvatarUrl_success [of response_data during w] show ?thesis
    by (auto simp: interleave_def)
qed

lemma getUserInfo_no_handle:
  "getAvatarUrl getAvatar during2 (interleave during1 w) = (Inr None, w') \<Longrightarrow>
   getUserInfo userInfo (Inr p) during1 getAvatar during2 w =
     (Inr (), setUserInfo \<lparr>name = data_name p, openaiApiKey = openai_api_key p,
                           avatarUrl = avatarUrl userInfo\<rparr> w')"
  by (simp add: getUserInfo_def)

lemma getUserInfo_handle:
  "getAvatarUrl getAvatar during2 (interleave during1 w) = (Inr (Some url), w') \<Longrightarrow>
   getUserInfo userInfo (Inr p) during1 getAvatar during2 w =
     (Inr (), setUserInfo \<lparr>name = data_name p, openaiApiKey = openai_api_key p,
                           avatarUrl = Some url\<rparr> w')"
  by (simp add: getUserInfo_def)

lemma getUserInfo_completes:
  "fst (getUserInfo userInfo getUserInfo_result during1 getAvatar during2 w) = Inr ()"
  by (simp add: getUserInfo_def Let_def split: sum.splits prod.splits)

section \<open>Decoding an encoding gives the bytes back\<close>

subsection \<open>The alphabet and the bit operations\<close>

lemma length_code: "length code = 64"
  by (simp add: code_def)

lemma code_valid_all: "list_all isBase64Char code"
  by (simp add: code_def isBase64Char_def)

lemma code_valid: "i < 64 \<Longrightarrow> isBase64Char (code ! i)"
  using code_valid_all by (simp add: list_all_length length_code)

lemma rev_code_all: "list_all (\<lambda>i. revLookup (code ! i) = i) [0..<64]"
  by code_simp

lemma rev_code: "i < 64 \<Longrightarrow> revLookup (code ! i) = i"
  using rev_code_all by (simp add: list_all_iff)

lemma or_disjoint:
  fixes a b :: nat
  assumes "a mod 2 ^ k = 0" and "b < 2 ^ k"
  shows "a OR b = a + b"
proof -
  have "a AND b = 0"
  proof (rule bit_eqI)
    fix n
    have "bit b n \<Longrightarrow> n < k"
      using assms(2) by (metis bit_take_bit_iff take_bit_nat_eq_self)
    moreover have "bit a n \<Longrightarrow> k \<le> n"
    proof -
      have "take_bit k a = 0" using assms(1) by (simp add: take_bit_eq_mod)
      then have "\<not> bit (take_bit k a) n" by simp
      then show "bit a n \<Longrightarrow> k \<le> n" by (simp add: bit_take_bit_iff)
    qed
    ultimately show "bit (a AND b) n \<longleftrightarrow> bit (0::nat) n"
      by (auto simp: bit_and_iff)
  qed
  then show ?thesis by (simp add: disjunctive_add_eq_or)
qed

lemma and_255: "(n::nat) AND 255 = n mod 256"
proof -
  have "n AND mask 8 = take_bit 8 n" by (simp only: take_bit_eq_mask)
  then show ?thesis by (simp add: take_bit_eq_mod mask_eq_exp_minus_1)
qed

lemma tmp4:
  fixes s0 s1 s2 s3 :: nat
  assumes "s1 < 64" "s2 < 64" "s3 < 64"
  shows "push_bit 18 s0 OR push_bit 12 s1 OR push_bit 6 s2 OR s3
         = s0 * 262144 + s1 * 4096 + s2 * 64 + s3"
proof -
  have 1: "push_bit 6 s2 OR s3 = s2 * 64 + s3"
    using assms or_disjoint [of "push_bit 6 s2" 6 s3]
    by (simp add: push_bit_eq_mult)
  have 2: "push_bit 12 s1 OR (s2 * 64 + s3) = s1 * 4096 + (s2 * 64 + s3)"
    using assms or_disjoint [of "push_bit 12 s1" 12 "s2 * 64 + s3"]
    by (simp add: push_bit_eq_mult)
  have 3: "push_bit 18 s0 OR (s1 * 4096 + (s2 * 64 + s3)) = s0 * 262144 + (s1 * 4096 + (s2 * 64 + s3))"
    using assms or_disjoint [of "push_bit 18 s0" 18 "s1 * 4096 + (s2 * 64 + s3)"]
    by (simp add: push_bit_eq_mult)
  show ?thesis by (simp only: 1 2 3 add.assoc)
qed

lemma sextets_value:
  fixes qa ra qb rb qc rc :: nat
  shows "qa * 262144 + (ra * 16 + qb) * 4096 + (rb * 4 + qc) * 64 + rc
         = (4 * qa + ra) * 65536 + (16 * qb + rb) * 256 + (64 * qc + rc)"
  by (simp add: algebra_simps)

lemma three_bytes:
  fixes a b c :: nat
  assumes "a < 256" "b < 256" "c < 256"
  shows "(a * 65536 + b * 256 + c) div 65536 mod 256 = a"
    "(a * 65536 + b * 256 + c) div 256 mod 256 = b"
    "(a * 65536 + b * 256 + c) mod 256 = c"
proof -
  have e: "a * 65536 + b * 256 + c = c + (b + a * 256) * 256" by simp
  show "(a * 65536 + b * 256 + c) div 65536 mod 256 = a" using assms by simp
  have "(a * 65536 + b * 256 + c) div 256 = b + a * 256"
    unfolding e using assms(3) by simp
  then show "(a * 65536 + b * 256 + c) div 256 mod 256 = b" using assms(2) by simp
  have "(c + (b + a * 256) * 256) mod 256 = c mod 256" by (rule mod_mult_self1)
  then show "(a * 65536 + b * 256 + c) mod 256 = c" using assms(3) by (simp only: e mod_less)
qed

lemma quad_bytes:
  fixes a b c :: nat
  assumes "a < 256" "b < 256" "c < 256"
  defines "tmp \<equiv> push_bit 18 (a div 4) OR push_bit 12 (a mod 4 * 16 + b div 16)
                 OR push_bit 6 (b mod 16 * 4 + c div 64) OR c mod 64"
  shows "drop_bit 16 tmp AND 255 = a" "drop_bit 8 tmp AND 255 = b" "tmp AND 255 = c"
proof -
  have "a mod 4 * 16 + b div 16 < 64" "b mod 16 * 4 + c div 64 < 64" "c mod 64 < 64"
    using assms(2,3) by simp_all
  then have "tmp = (a div 4) * 262144 + (a mod 4 * 16 + b div 16) * 4096
              + (b mod 16 * 4 + c div 64) * 64 + c mod 64"
    unfolding tmp_def by (rule tmp4)
  also have "\<dots> = a * 65536 + b * 256 + c"
    using sextets_value [of "a div 4" "a mod 4" "b div 16" "b mod 16" "c div 64" "c mod 64"]
    by (simp only: mult_div_mod_eq)
  finally have t: "tmp = a * 65536 + b * 256 + c" .
  show "drop_bit 16 tmp AND 255 = a" "drop_bit 8 tmp AND 255 = b" "tmp AND 255 = c"
    using three_bytes [OF assms(1-3)] by (simp_all only: t and_255 drop_bit_eq_div) simp_all
qed

lemma pad2_byte:
  fixes a :: nat
  assumes "a < 256"
  shows "(push_bit 2 (a div 4) OR drop_bit 4 (a mod 4 * 16)) AND 255 = a"
proof -
  have "drop_bit 4 (a mod 4 * 16) = a mod 4" by (simp add: drop_bit_eq_div)
  moreover have "push_bit 2 (a div 4) OR a mod 4 = push_bit 2 (a div 4) + a mod 4"
    by (rule or_disjoint [where k = 2]) (simp_all add: push_bit_eq_mult)
  ultimately have "push_bit 2 (a div 4) OR drop_bit 4 (a mod 4 * 16) = a"
    by (simp add: push_bit_eq_mult)
  then show ?thesis using assms by (simp add: and_255)
qed

lemma pair_value:
  fixes qa ra qb rb :: nat
  shows "qa * 1024 + ((ra * 16 + qb) * 16 + rb) = (4 * qa + ra) * 256 + (16 * qb + rb)"
  by (simp add: algebra_simps)

lemma pad1_bytes:
  fixes a b :: nat
  assumes "a < 256" "b < 256"
  defines "tmp \<equiv> push_bit 10 (a div 4) OR push_bit 4 (a mod 4 * 16 + b div 16)
                 OR drop_bit 2 (b mod 16 * 4)"
  shows "drop_bit 8 tmp AND 255 = a" "tmp AND 255 = b"
proof -
  have d: "drop_bit 2 (b mod 16 * 4) = b mod 16" by (simp add: drop_bit_eq_div)
  have 1: "push_bit 4 (a mod 4 * 16 + b div 16) OR b mod 16
           = (a mod 4 * 16 + b div 16) * 16 + b mod 16"
    using or_disjoint [of "push_bit 4 (a mod 4 * 16 + b div 16)" 4 "b mod 16"]
    by (simp add: push_bit_eq_mult)
  have "(a mod 4 * 16 + b div 16) * 16 + b mod 16 < 2 ^ 10"
    using assms(2) by simp
  then have 2: "push_bit 10 (a div 4) OR ((a mod 4 * 16 + b div 16) * 16 + b mod 16)
           = (a div 4) * 1024 + ((a mod 4 * 16 + b div 16) * 16 + b mod 16)"
    using or_disjoint [of "push_bit 10 (a div 4)" 10 "(a mod 4 * 16 + b div 16) * 16 + b mod 16"]
    by (simp add: push_bit_eq_mult)
  have "(a div 4) * 1024 + ((a mod 4 * 16 + b div 16) * 16 + b mod 16) = a * 256 + b"
    using pair_value [of "a div 4" "a mod 4" "b div 16" "b mod 16"]
    by (simp only: mult_div_mod_eq)
  then have t: "tmp = a * 256 + b" unfolding tmp_def by (simp only: d 1 2)
  show "drop_bit 8 tmp AND 255 = a" "tmp AND 255 = b"
    using assms(1,2) by (simp_all add: t and_255 drop_bit_eq_div)
qed



subsection \<open>Cleaning\<close>

lemma code_not_61: "i < 64 \<Longrightarrow> code ! i \<noteq> 61"
  using code_valid not_valid_61 by metis

lemma padToFour_0: "length str mod 4 = 0 \<Longrightarrow> padToFour str = str"
  by (subst padToFour.simps) simp

lemma padToFour_3: "length str mod 4 = 3 \<Longrightarrow> padToFour str = str @ [61]"
proof -
  assume a: "length str mod 4 = 3"
  then have "length (str @ [61]) mod 4 = 0" by (simp add: mod_Suc)
  then have "padToFour (str @ [61]) = str @ [61]" by (rule padToFour_0)
  with a show ?thesis by (subst padToFour.simps) simp
qed

lemma padToFour_2: "length str mod 4 = 2 \<Longrightarrow> padToFour str = str @ [61, 61]"
proof -
  assume a: "length str mod 4 = 2"
  then have "length (str @ [61]) mod 4 = 3" by (simp add: mod_Suc)
  then have "padToFour (str @ [61]) = (str @ [61]) @ [61]" by (rule padToFour_3)
  with a show ?thesis by (subst padToFour.simps) simp
qed

lemma filter_dropWhile:
  "(\<And>x. Q x \<Longrightarrow> \<not> P x) \<Longrightarrow> filter P (dropWhile Q xs) = filter P xs"
  by (induction xs) auto

lemma white_not_valid: "isWhiteSpace c \<Longrightarrow> \<not> isBase64Char c"
  by (auto simp: isWhiteSpace_def isBase64Char_def)

lemma filter_trim: "filter isBase64Char (trim str) = filter isBase64Char str"
proof -
  have "filter isBase64Char (trim str) = rev (filter isBase64Char (dropWhile isWhiteSpace (rev (dropWhile isWhiteSpace str))))"
    by (simp add: trim_def rev_filter)
  also have "\<dots> = rev (filter isBase64Char (rev (dropWhile isWhiteSpace str)))"
    by (simp only: filter_dropWhile [of isWhiteSpace isBase64Char, OF white_not_valid])
  also have "\<dots> = filter isBase64Char (dropWhile isWhiteSpace str)"
    by (simp add: rev_filter)
  also have "\<dots> = filter isBase64Char str"
    by (simp only: filter_dropWhile [of isWhiteSpace isBase64Char, OF white_not_valid])
  finally show ?thesis .
qed

lemma base64clean_eq:
  "base64clean str =
     (let s = filter isBase64Char (takeWhile (\<lambda>c. c \<noteq> 61) str)
      in if length s < 2 then [] else padToFour s)"
  by (simp add: base64clean_def Let_def filter_trim)

subsection \<open>The shape of an encoding\<close>

lemma sextet_bounds:
  fixes a b c :: "8 word"
  shows "unat a div 4 < 64" "unat a mod 4 * 16 + unat b div 16 < 64"
    "unat b mod 16 * 4 + unat c div 64 < 64" "unat c mod 64 < 64"
    "unat a mod 4 * 16 < 64" "unat b mod 16 * 4 < 64"
proof -
  have "unat a < 256" "unat b < 256" "unat c < 256"
    using unsigned_less [of a] unsigned_less [of b] unsigned_less [of c] by simp_all
  then show "unat a div 4 < 64" "unat a mod 4 * 16 + unat b div 16 < 64"
    "unat b mod 16 * 4 + unat c div 64 < 64" "unat c mod 64 < 64"
    "unat a mod 4 * 16 < 64" "unat b mod 16 * 4 < 64"
    by simp_all
qed

lemma unat_byte: "unat (a :: 8 word) < 256"
  using unsigned_less [of a] by simp

lemma three_more: "Suc (Suc (Suc n)) mod 3 = n mod 3" "Suc (Suc (Suc n)) div 3 = Suc (n div 3)"
  by presburger+

lemma encode_append:
  "length F mod 3 = 0 \<Longrightarrow> base64_encode (F @ t) = base64_encode F @ base64_encode t"
proof (induction F rule: base64_encode.induct)
  case (1 a b c rest)
  then have "length rest mod 3 = 0" by (simp add: three_more)
  with 1 show ?case by simp
qed simp_all

lemma encode_full_valid:
  "length F mod 3 = 0 \<Longrightarrow> list_all isBase64Char (base64_encode F)"
proof (induction F rule: base64_encode.induct)
  case (1 a b c rest)
  then have "length rest mod 3 = 0" by (simp add: three_more)
  with 1 show ?case by (simp add: code_valid sextet_bounds)
qed simp_all

lemma encode_full_length:
  "length F mod 3 = 0 \<Longrightarrow> length (base64_encode F) = 4 * (length F div 3)"
proof (induction F rule: base64_encode.induct)
  case (1 a b c rest)
  then have r: "length rest mod 3 = 0" by (simp add: three_more)
  have "length (a # b # c # rest) div 3 = Suc (length rest div 3)" by (simp add: three_more)
  moreover have "length (base64_encode (a # b # c # rest)) = 4 + length (base64_encode rest)" by simp
  ultimately show ?case using "1.IH" [OF r] by (simp only:) simp
qed simp_all

lemma split_full:
  obtains F t where "B = F @ t" "length F mod 3 = 0" "length t < 3"
proof
  show "B = take (3 * (length B div 3)) B @ drop (3 * (length B div 3)) B" by simp
  have "3 * (length B div 3) \<le> length B" by simp
  then have "length (take (3 * (length B div 3)) B) = 3 * (length B div 3)" by simp
  then show "length (take (3 * (length B div 3)) B) mod 3 = 0" by simp
  show "length (drop (3 * (length B div 3)) B) < 3"
    by (simp add: minus_mult_div_eq_mod)
qed

subsection \<open>The main loop on an encoding\<close>

lemma quads_step:
  assumes "int (length pre) < len"
  shows "quads (pre @ c0 # c1 # c2 # c3 # post) len (length pre) arr cur =
     quads (pre @ c0 # c1 # c2 # c3 # post) len (length pre + 4)
       (arr[cur := of_nat (drop_bit 16 (push_bit 18 (revLookup c0) OR push_bit 12 (revLookup c1)
                     OR push_bit 6 (revLookup c2) OR revLookup c3) AND 255),
            cur + 1 := of_nat (drop_bit 8 (push_bit 18 (revLookup c0) OR push_bit 12 (revLookup c1)
                     OR push_bit 6 (revLookup c2) OR revLookup c3) AND 255),
            cur + 2 := of_nat ((push_bit 18 (revLookup c0) OR push_bit 12 (revLookup c1)
                     OR push_bit 6 (revLookup c2) OR revLookup c3) AND 255)])
       (cur + 3)"
  using assms by (subst quads.simps) (simp add: revAt_def nth_append Let_def)

lemma quads_stop: "\<not> int i < len \<Longrightarrow> quads b64 len i arr cur = (i, arr, cur)"
  by (subst quads.simps) simp

lemma quads_triple:
  assumes "int (length pre) < len"
  shows "quads (pre @ base64_encode (a # b # c # rest) @ post) len (length pre) arr cur =
     quads (pre @ base64_encode (a # b # c # rest) @ post) len (length pre + 4)
       (arr[cur := a, cur + 1 := b, cur + 2 := c]) (cur + 3)"
proof -
  have "pre @ base64_encode (a # b # c # rest) @ post =
        pre @ code ! (unat a div 4) # code ! (unat a mod 4 * 16 + unat b div 16)
          # code ! (unat b mod 16 * 4 + unat c div 64) # code ! (unat c mod 64)
          # (base64_encode rest @ post)"
    by simp
  then show ?thesis
    using quads_step [OF assms, of "code ! (unat a div 4)" "code ! (unat a mod 4 * 16 + unat b div 16)"
        "code ! (unat b mod 16 * 4 + unat c div 64)" "code ! (unat c mod 64)"
        "base64_encode rest @ post" arr cur]
      quad_bytes [OF unat_byte unat_byte unat_byte, of a b c]
    by (simp only: rev_code sextet_bounds) simp
qed

lemma write3:
  "3 \<le> m \<Longrightarrow>
   (done @ replicate m z)[length done := a, length done + 1 := b, length done + 2 := c] =
     (done @ [a, b, c]) @ replicate (m - 3) z"
proof -
  assume "3 \<le> m"
  then obtain k where m: "m = Suc (Suc (Suc k))"
    by (metis Suc_le_D numeral_3_eq_3 Suc_le_mono)
  show ?thesis by (simp add: m list_update_append)
qed

lemma quads_full:
  "length F mod 3 = 0 \<Longrightarrow> length F \<le> m \<Longrightarrow>
   (F \<noteq> [] \<Longrightarrow> int (length pre + 4 * (length F div 3)) - 4 < len) \<Longrightarrow>
   quads (pre @ base64_encode F @ post) len (length pre) (done @ replicate m 0) (length done) =
     quads (pre @ base64_encode F @ post) len (length pre + 4 * (length F div 3))
       (done @ F @ replicate (m - length F) 0) (length done + length F)"
proof (induction F arbitrary: pre "done" m rule: base64_encode.induct)
  case (1 a b c rest)
  let ?q = "[code ! (unat a div 4), code ! (unat a mod 4 * 16 + unat b div 16),
             code ! (unat b mod 16 * 4 + unat c div 64), code ! (unat c mod 64)]"
  let ?b64 = "pre @ base64_encode (a # b # c # rest) @ post"
  have r: "length rest mod 3 = 0" using "1.prems"(1) by (simp add: three_more)
  have k: "length (a # b # c # rest) div 3 = Suc (length rest div 3)" by (simp add: three_more)
  have m: "3 \<le> m" "length rest \<le> m - 3" using "1.prems"(2) by simp_all
  have lt: "int (length pre) < len" using "1.prems"(3) k by simp
  have s: "?b64 = (pre @ ?q) @ base64_encode rest @ post" by simp
  have "quads ?b64 len (length pre) (done @ replicate m 0) (length done) =
        quads ?b64 len (length pre + 4)
          ((done @ replicate m 0)[length done := a, length done + 1 := b, length done + 2 := c])
          (length done + 3)"
    by (rule quads_triple [OF lt])
  also have "\<dots> = quads ((pre @ ?q) @ base64_encode rest @ post) len (length (pre @ ?q))
          ((done @ [a, b, c]) @ replicate (m - 3) 0) (length (done @ [a, b, c]))"
  proof -
    have l1: "length (pre @ ?q) = length pre + 4" by simp
    have l2: "length (done @ [a, b, c]) = length done + 3" by simp
    show ?thesis by (simp only: write3 [OF m(1)] s l1 l2)
  qed
  also have "\<dots> = quads ((pre @ ?q) @ base64_encode rest @ post) len
          (length (pre @ ?q) + 4 * (length rest div 3))
          ((done @ [a, b, c]) @ rest @ replicate (m - 3 - length rest) 0)
          (length (done @ [a, b, c]) + length rest)"
  proof (rule "1.IH" [OF r m(2)])
    assume "rest \<noteq> []"
    show "int (length (pre @ ?q) + 4 * (length rest div 3)) - 4 < len"
      using "1.prems"(3) k by simp
  qed
  also have "\<dots> = quads ?b64 len (length pre + 4 * (length (a # b # c # rest) div 3))
          (done @ (a # b # c # rest) @ replicate (m - length (a # b # c # rest)) 0)
          (length done + length (a # b # c # rest))"
  proof -
    have l1: "length (pre @ ?q) + 4 * (length rest div 3) =
              length pre + 4 * (length (a # b # c # rest) div 3)"
      by (simp only: k) simp
    have l2: "(done @ [a, b, c]) @ rest @ replicate (m - 3 - length rest) 0 =
              done @ (a # b # c # rest) @ replicate (m - length (a # b # c # rest)) 0"
      by simp
    have l3: "length (done @ [a, b, c]) + length rest = length done + length (a # b # c # rest)"
      by simp
    show ?thesis by (simp only: s [symmetric] l1 l2 l3)
  qed
  finally show ?case .
qed simp_all

subsection \<open>\<^verbatim>\<open>toByteArray\<close> on the three shapes of an encoding\<close>

lemma takeWhile_encode:
  assumes "length F mod 3 = 0"
  shows "takeWhile (\<lambda>c. c \<noteq> 61) (base64_encode F @ ys) = base64_encode F @ takeWhile (\<lambda>c. c \<noteq> 61) ys"
proof (rule takeWhile_append2)
  fix x assume "x \<in> set (base64_encode F)"
  with encode_full_valid [OF assms] have "isBase64Char x" by (simp add: list_all_iff)
  with not_valid_61 show "x \<noteq> 61" by auto
qed

lemma no_61_encode: "length F mod 3 = 0 \<Longrightarrow> 61 \<notin> set (base64_encode F)"
  using encode_full_valid [of F] not_valid_61 by (auto simp: list_all_iff)

lemma mult4_mod: "(4 * k) mod 4 = (0::nat)" "(4 * k + 2) mod 4 = (2::nat)" "(4 * k + 3) mod 4 = (3::nat)"
  "(4 * k + 4) mod 4 = (0::nat)"
  "Suc (Suc (4 * k)) mod 4 = 2" "Suc (Suc (Suc (4 * k))) mod 4 = 3"
  "Suc (Suc (Suc (Suc (4 * k)))) mod 4 = 0"
  by presburger+

lemma toByteArray_full:
  assumes "length F mod 3 = 0"
  shows "toByteArray (base64_encode F) = Inr F"
proof -
  let ?k = "length F div 3"
  have len: "length (base64_encode F) = 4 * ?k" by (rule encode_full_length [OF assms])
  have n: "length F = 3 * ?k" using assms by presburger
  have g: "getLens (base64_encode F) = Inr (4 * ?k, 0)"
    using no_61_encode [OF assms] by (simp add: getLens_def indexOf_def len Let_def)
  have b: "byteLength (4 * ?k) 0 = int (length F)" using n by (simp add: byteLength_def)
  have "quads ([] @ base64_encode F @ []) (int (4 * ?k)) (length ([]::jsstring)) ([] @ replicate (length F) 0) (length ([]::bytes))
        = quads ([] @ base64_encode F @ []) (int (4 * ?k)) (length ([]::jsstring) + 4 * ?k)
            ([] @ F @ replicate (length F - length F) 0) (length ([]::bytes) + length F)"
    by (rule quads_full [OF assms]) simp_all
  then have "quads (base64_encode F) (int (4 * ?k)) 0 (replicate (length F) 0) 0 = (4 * ?k, F, length F)"
    by (simp add: quads_stop)
  then show ?thesis
    by (simp add: toByteArray_def g b)
qed

lemma toByteArray_ph2:
  assumes "getLens b64 = Inr (validLen, 2)"
    and "byteLength validLen 2 = int n"
    and "quads b64 (int validLen - 4) 0 (replicate n 0) 0 = (i, arr, cur)"
  shows "toByteArray b64 =
     Inr (arr[cur := of_nat ((push_bit 2 (revAt b64 i) OR drop_bit 4 (revAt b64 (i + 1))) AND 255)])"
  by (simp add: toByteArray_def assms)

lemma toByteArray_ph1:
  assumes "getLens b64 = Inr (validLen, 1)"
    and "byteLength validLen 1 = int n"
    and "quads b64 (int validLen - 4) 0 (replicate n 0) 0 = (i, arr, cur)"
  shows "toByteArray b64 =
     Inr (arr[cur := of_nat (drop_bit 8 (push_bit 10 (revAt b64 i) OR push_bit 4 (revAt b64 (i + 1))
                                OR drop_bit 2 (revAt b64 (i + 2))) AND 255),
              cur + 1 := of_nat ((push_bit 10 (revAt b64 i) OR push_bit 4 (revAt b64 (i + 1))
                                OR drop_bit 2 (revAt b64 (i + 2))) AND 255)])"
  using assms by (simp add: toByteArray_def)

lemma toByteArray_one:
  assumes "length F mod 3 = 0"
  shows "toByteArray (base64_encode (F @ [a])) = Inr (F @ [a])"
proof -
  let ?k = "length F div 3"
  let ?c0 = "code ! (unat a div 4)" and ?c1 = "code ! (unat a mod 4 * 16)"
  let ?P = "base64_encode F @ [?c0, ?c1, 61, 61]"
  have P: "base64_encode (F @ [a]) = ?P" by (simp add: encode_append [OF assms])
  have len: "length (base64_encode F) = 4 * ?k" by (rule encode_full_length [OF assms])
  have n: "length F = 3 * ?k" using assms by presburger
  have c: "?c0 \<noteq> 61" "?c1 \<noteq> 61" by (simp_all add: code_not_61 sextet_bounds)
  have tw: "takeWhile (\<lambda>c. c \<noteq> 61) ?P = base64_encode F @ [?c0, ?c1]"
    using c by (simp add: takeWhile_encode [OF assms])
  have g: "getLens ?P = Inr (4 * ?k + 2, 2)"
    by (simp add: getLens_def indexOf_def tw len Let_def mult4_mod)
  have b: "byteLength (4 * ?k + 2) 2 = int (length F + 1)" using n by (simp add: byteLength_def)
  have "quads ([] @ base64_encode F @ [?c0, ?c1, 61, 61]) (int (4 * ?k + 2) - 4) (length ([]::jsstring))
          ([] @ replicate (length F + 1) 0) (length ([]::bytes))
        = quads ([] @ base64_encode F @ [?c0, ?c1, 61, 61]) (int (4 * ?k + 2) - 4) (length ([]::jsstring) + 4 * ?k)
            ([] @ F @ replicate (length F + 1 - length F) 0) (length ([]::bytes) + length F)"
    by (rule quads_full [OF assms]) simp_all
  then have q: "quads ?P (int (4 * ?k + 2) - 4) 0 (replicate (length F + 1) 0) 0 = (4 * ?k, F @ [0], length F)"
    by (simp add: quads_stop)
  have r: "revAt ?P (4 * ?k) = unat a div 4" "revAt ?P (4 * ?k + 1) = unat a mod 4 * 16"
    by (simp_all add: revAt_def nth_append len rev_code sextet_bounds)
  have "toByteArray ?P = Inr ((F @ [0])[length F := a])"
    using toByteArray_ph2 [OF g b q] by (simp only: r pad2_byte [OF unat_byte]) simp
  then show ?thesis
    by (simp add: P)
qed

lemma toByteArray_two:
  assumes "length F mod 3 = 0"
  shows "toByteArray (base64_encode (F @ [a, b])) = Inr (F @ [a, b])"
proof -
  let ?k = "length F div 3"
  let ?c0 = "code ! (unat a div 4)" and ?c1 = "code ! (unat a mod 4 * 16 + unat b div 16)"
    and ?c2 = "code ! (unat b mod 16 * 4)"
  let ?P = "base64_encode F @ [?c0, ?c1, ?c2, 61]"
  have P: "base64_encode (F @ [a, b]) = ?P" by (simp add: encode_append [OF assms])
  have len: "length (base64_encode F) = 4 * ?k" by (rule encode_full_length [OF assms])
  have n: "length F = 3 * ?k" using assms by presburger
  have c: "?c0 \<noteq> 61" "?c1 \<noteq> 61" "?c2 \<noteq> 61" by (simp_all add: code_not_61 sextet_bounds)
  have tw: "takeWhile (\<lambda>c. c \<noteq> 61) ?P = base64_encode F @ [?c0, ?c1, ?c2]"
    using c by (simp add: takeWhile_encode [OF assms])
  have g: "getLens ?P = Inr (4 * ?k + 3, 1)"
    by (simp add: getLens_def indexOf_def tw len Let_def mult4_mod)
  have b: "byteLength (4 * ?k + 3) 1 = int (length F + 2)" using n by (simp add: byteLength_def)
  have "quads ([] @ base64_encode F @ [?c0, ?c1, ?c2, 61]) (int (4 * ?k + 3) - 4) (length ([]::jsstring))
          ([] @ replicate (length F + 2) 0) (length ([]::bytes))
        = quads ([] @ base64_encode F @ [?c0, ?c1, ?c2, 61]) (int (4 * ?k + 3) - 4) (length ([]::jsstring) + 4 * ?k)
            ([] @ F @ replicate (length F + 2 - length F) 0) (length ([]::bytes) + length F)"
    by (rule quads_full [OF assms]) simp_all
  then have q: "quads ?P (int (4 * ?k + 3) - 4) 0 (replicate (length F + 2) 0) 0 = (4 * ?k, F @ [0, 0], length F)"
    by (simp add: quads_stop numeral_2_eq_2)
  have r: "revAt ?P (4 * ?k) = unat a div 4" "revAt ?P (4 * ?k + 1) = unat a mod 4 * 16 + unat b div 16"
    "revAt ?P (4 * ?k + 2) = unat b mod 16 * 4"
    by (simp_all add: revAt_def nth_append len rev_code sextet_bounds)
  have "toByteArray ?P = Inr ((F @ [0, 0])[length F := a, length F + 1 := b])"
    using toByteArray_ph1 [OF g b q] by (simp only: r pad1_bytes [OF unat_byte unat_byte]) simp
  then show ?thesis
    by (simp add: P list_update_append)
qed

lemma toByteArray_encode: "toByteArray (base64_encode B) = Inr B"
proof -
  obtain F t where B: "B = F @ t" and F: "length F mod 3 = 0" and t: "length t < 3"
    by (rule split_full)
  consider "t = []" | a where "t = [a]" | a b where "t = [a, b]"
    using t by (cases t rule: base64_encode.cases) simp_all
  then show ?thesis
    using toByteArray_full [OF F] toByteArray_one [OF F] toByteArray_two [OF F]
    by cases (simp_all add: B)
qed

subsection \<open>Cleaning an encoding changes nothing\<close>

lemma filter_valid_encode:
  "length F mod 3 = 0 \<Longrightarrow> filter isBase64Char (base64_encode F) = base64_encode F"
  using encode_full_valid [of F] by (simp add: list_all_iff)

lemma base64clean_full:
  assumes "length F mod 3 = 0"
  shows "base64clean (base64_encode F) = base64_encode F"
proof -
  have tw: "takeWhile (\<lambda>c. c \<noteq> 61) (base64_encode F) = base64_encode F"
    using takeWhile_encode [OF assms, of "[]"] by simp
  have len: "length (base64_encode F) = 4 * (length F div 3)" by (rule encode_full_length [OF assms])
  show ?thesis
  proof (cases "length F div 3 = 0")
    case True
    with len show ?thesis by (simp add: base64clean_eq tw filter_valid_encode [OF assms])
  next
    case False
    with len have "\<not> length (base64_encode F) < 2" by simp
    moreover have "padToFour (base64_encode F) = base64_encode F"
      by (rule padToFour_0) (simp add: len)
    ultimately show ?thesis by (simp add: base64clean_eq tw filter_valid_encode [OF assms])
  qed
qed

lemma base64clean_one:
  assumes "length F mod 3 = 0"
  shows "base64clean (base64_encode (F @ [a])) = base64_encode (F @ [a])"
proof -
  let ?cs = "[code ! (unat a div 4), code ! (unat a mod 4 * 16)]"
  have P: "base64_encode (F @ [a]) = base64_encode F @ ?cs @ [61, 61]"
    by (simp add: encode_append [OF assms])
  have tw: "takeWhile (\<lambda>c. c \<noteq> 61) (base64_encode F @ ?cs @ [61, 61]) = base64_encode F @ ?cs"
    by (simp add: takeWhile_encode [OF assms] code_not_61 sextet_bounds)
  have f: "filter isBase64Char (base64_encode F @ ?cs) = base64_encode F @ ?cs"
    by (simp add: filter_valid_encode [OF assms] code_valid sextet_bounds)
  have len: "length (base64_encode F @ ?cs) = 4 * (length F div 3) + 2"
    by (simp add: encode_full_length [OF assms])
  have "padToFour (base64_encode F @ ?cs) = (base64_encode F @ ?cs) @ [61, 61]"
    by (rule padToFour_2) (simp only: len mult4_mod)
  moreover have "\<not> length (base64_encode F @ ?cs) < 2" by (simp only: len)
  ultimately show ?thesis
    by (simp only: P base64clean_eq tw f Let_def if_False append_assoc)
qed

lemma base64clean_two:
  assumes "length F mod 3 = 0"
  shows "base64clean (base64_encode (F @ [a, b])) = base64_encode (F @ [a, b])"
proof -
  let ?cs = "[code ! (unat a div 4), code ! (unat a mod 4 * 16 + unat b div 16),
              code ! (unat b mod 16 * 4)]"
  have P: "base64_encode (F @ [a, b]) = base64_encode F @ ?cs @ [61]"
    by (simp add: encode_append [OF assms])
  have tw: "takeWhile (\<lambda>c. c \<noteq> 61) (base64_encode F @ ?cs @ [61]) = base64_encode F @ ?cs"
    by (simp add: takeWhile_encode [OF assms] code_not_61 sextet_bounds)
  have f: "filter isBase64Char (base64_encode F @ ?cs) = base64_encode F @ ?cs"
    by (simp add: filter_valid_encode [OF assms] code_valid sextet_bounds)
  have len: "length (base64_encode F @ ?cs) = 4 * (length F div 3) + 3"
    by (simp add: encode_full_length [OF assms])
  have "padToFour (base64_encode F @ ?cs) = (base64_encode F @ ?cs) @ [61]"
    by (rule padToFour_3) (simp only: len mult4_mod)
  moreover have "\<not> length (base64_encode F @ ?cs) < 2" by (simp only: len)
  ultimately show ?thesis
    by (simp only: P base64clean_eq tw f Let_def if_False append_assoc)
qed

lemma base64clean_encode: "base64clean (base64_encode B) = base64_encode B"
proof -
  obtain F t where B: "B = F @ t" and F: "length F mod 3 = 0" and t: "length t < 3"
    by (rule split_full)
  consider "t = []" | a where "t = [a]" | a b where "t = [a, b]"
    using t by (cases t rule: base64_encode.cases) simp_all
  then show ?thesis
    using base64clean_full [OF F] base64clean_one [OF F] base64clean_two [OF F]
    by cases (simp_all add: B)
qed

lemma Buffer_from_base64_encode: "Buffer_from_base64 (base64_encode B) = Inr B"
  by (simp add: Buffer_from_base64_def base64clean_encode toByteArray_encode)

lemma Buffer_from_base64_unpadded:
  "Buffer_from_base64 (takeWhile (\<lambda>c. c \<noteq> 61) (base64_encode B)) = Inr B"
proof -
  have "base64clean (takeWhile (\<lambda>c. c \<noteq> 61) (base64_encode B)) = base64clean (base64_encode B)"
    by (simp add: base64clean_def)
  then show ?thesis
    by (simp add: Buffer_from_base64_def base64clean_encode toByteArray_encode)
qed

lemma takeWhile_filter:
  "(\<And>x. \<not> P x \<Longrightarrow> Q x) \<Longrightarrow> takeWhile P (filter Q xs) = filter Q (takeWhile P xs)"
  by (induction xs) auto

lemma Buffer_from_base64_lenient:
  "Buffer_from_base64 (filter (\<lambda>c. isBase64Char c \<or> c = 61) string) = Buffer_from_base64 string"
proof -
  have "takeWhile (\<lambda>c. c \<noteq> 61) (filter (\<lambda>c. isBase64Char c \<or> c = 61) string)
        = filter (\<lambda>c. isBase64Char c \<or> c = 61) (takeWhile (\<lambda>c. c \<noteq> 61) string)"
    by (rule takeWhile_filter) simp
  moreover have "filter isBase64Char (filter (\<lambda>c. isBase64Char c \<or> c = 61) xs) = filter isBase64Char xs" for xs
    by (induction xs) auto
  ultimately have "base64clean (filter (\<lambda>c. isBase64Char c \<or> c = 61) string) = base64clean string"
    by (simp add: base64clean_eq)
  then show ?thesis by (simp add: Buffer_from_base64_def)
qed

subsection \<open>The decoder on some texts\<close>

text \<open>
  \<^verbatim>\<open>"TWFu"\<close> is \<^verbatim>\<open>"Man"\<close>; a fifth character alone is dropped; white space is
  removed and the text ends at the first \<^verbatim>\<open>'='\<close>; a character outside the alphabet is
  removed; a single character gives no byte.
\<close>

lemma revLookup_values:
  "revLookup 84 = 19" "revLookup 87 = 22" "revLookup 70 = 5" "revLookup 117 = 46" "revLookup 69 = 4"
  by (simp_all add: revLookup_def code_def upt_rec)

lemma replicate_values:
  "replicate 3 (0 :: 8 word) = [0, 0, 0]" "replicate 2 (0 :: 8 word) = [0, 0]"
  by (simp_all add: numeral_2_eq_2 numeral_3_eq_3)

lemmas evaluate_decoder =
  Buffer_from_base64_def base64clean_def trim_def isWhiteSpace_def isBase64Char_def padToFour.simps
  toByteArray_def getLens_def indexOf_def byteLength_def quads.simps revAt_def revLookup_values
  replicate_values

lemma Buffer_from_base64_examples:
  "Buffer_from_base64 (map of_char ''TWFu'') = Inr [77, 97, 110]"
  "Buffer_from_base64 (map of_char ''TWFuT'') = Inr [77, 97, 110]"
  "Buffer_from_base64 (map of_char ''TW E=TWFu'') = Inr [77, 97]"
  "Buffer_from_base64 (map of_char ''T!W'') = Inr [77]"
  "Buffer_from_base64 (map of_char ''T'') = Inr []"
  by (simp_all add: evaluate_decoder)

section \<open>Claims about the sync procedure\<close>

text \<open>
  Claim C2. When the profile request fails, whatever the error, \<^verbatim>\<open>getUserInfo\<close> writes
  nothing to the store and enqueues exactly one notification, ``Error getting user
  info'': the store holds what the tasks interleaved with the request left there, and
  with no interleaved task the world after the sync is the world before it plus that
  one notification.
\<close>

theorem profile_fetch_failure:
  "getUserInfo userInfo (Inl e) during1 getAvatar during2 w =
     (Inr (), w\<lparr>store := during1 (store w),
                 snackbar := snackbar w @ [\<lparr>variant = ''error'', message = Some ''Error getting user info''\<rparr>]\<rparr>)
   \<and> sync (Inl e) (\<lambda>s. s) getAvatar during2 w =
     (Inr (), w\<lparr>snackbar := snackbar w @ [\<lparr>variant = ''error'', message = Some ''Error getting user info''\<rparr>]\<rparr>)"
  by (simp add: sync_def getUserInfo_profile_failure enqueueSnackbar_def interleave_def)

theorem profile_fetch_failure_witness:
  "sync (Inl (AxiosError (Some \<lparr>status = 500, data = Payload None\<rparr>))) (\<lambda>s. s) (Inl TypeError) (\<lambda>s. s) ann_world =
     (Inr (), \<lparr>store = \<lparr>name = Some ''Ann'', openaiApiKey = Some ''sk-123'', avatarUrl = Some (BlobURL 0)\<rparr>,
              snackbar = [\<lparr>variant = ''error'', message = Some ''Error getting user info''\<rparr>],
              objectURLs = [[137, 80, 78, 71]]\<rparr>)"
  using profile_fetch_failure [of no_avatar "AxiosError (Some \<lparr>status = 500, data = Payload None\<rparr>)"
      "\<lambda>s. s" "Inl TypeError" "\<lambda>s. s" ann_world]
  by (simp add: ann_world_def)

text \<open>
  Claim C4. When the profile request succeeds and the avatar request is answered with
  status 404, the sync ends with the fetched name and key in the store, the avatar the
  store held when the sync started, and no notification; the blob URL store is
  untouched.
\<close>

theorem avatar_not_found:
  assumes "status r = 404"
  shows "sync (Inr p) during1 (Inl (AxiosError (Some r))) during2 w =
     (Inr (), w\<lparr>store := \<lparr>name = data_name p, openaiApiKey = openai_api_key p,
                            avatarUrl = avatarUrl (store w)\<rparr>\<rparr>)"
  using assms
  by (simp add: sync_def getUserInfo_no_handle getAvatarUrl_404 setUserInfo_def interleave_def)

theorem avatar_not_found_witness:
  "sync (Inr ann) (\<lambda>s. s) (Inl (AxiosError (Some \<lparr>status = 404, data = Payload (Some ''Not Found'')\<rparr>))) (\<lambda>s. s) mounted =
     (Inr (), \<lparr>store = \<lparr>name = Some ''Ann'', openaiApiKey = Some ''sk-123'', avatarUrl = None\<rparr>,
              snackbar = [], objectURLs = []\<rparr>)"
  using avatar_not_found [of "\<lparr>status = 404, data = Payload (Some ''Not Found'')\<rparr>" ann "\<lambda>s. s" "\<lambda>s. s" mounted]
  by (simp add: mounted_def ann_def no_avatar_def)

text \<open>
  Claim C3 asks for exactly one notification on every avatar failure other than 404,
  errors that are no HTTP errors included. The \<^verbatim>\<open>catch\<close> block of \<^verbatim>\<open>getAvatarUrl\<close>
  notifies only under \<^verbatim>\<open>isAxiosError(error)\<close>: any other error is tolerated in silence.
\<close>

theorem avatar_failure_silent_counterexample:
  "\<not> isAxiosError (Error ''unexpected'')
   \<and> snackbar (snd (sync (Inr ann) (\<lambda>s. s) (Inl (Error ''unexpected'')) (\<lambda>s. s) mounted)) = []"
  by (simp add: sync_def getUserInfo_no_handle getAvatarUrl_not_axios setUserInfo_def interleave_def mounted_def)

text \<open>
  Claim C3, amended. An Axios error with a response other than 404 whose body is not
  nullish gives exactly one notification, its message the \<^verbatim>\<open>detail\<close> of the body
  (\<^verbatim>\<open>undefined\<close> when the body has none); an Axios error without a response gives
  exactly one notification with an \<^verbatim>\<open>undefined\<close> message; an error that is no Axios
  error gives none. In all three cases the sync proceeds: the store receives the
  fetched name and key and keeps the avatar it held when the sync started.
\<close>

theorem avatar_fetch_failure:
  "(status r \<noteq> 404 \<and> data r = Payload detail \<longrightarrow>
      sync (Inr p) during1 (Inl (AxiosError (Some r))) during2 w =
        (Inr (), w\<lparr>store := \<lparr>name = data_name p, openaiApiKey = openai_api_key p,
                               avatarUrl = avatarUrl (store w)\<rparr>,
                    snackbar := snackbar w @ [\<lparr>variant = ''error'', message = detail\<rparr>]\<rparr>))
   \<and> sync (Inr p) during1 (Inl (AxiosError None)) during2 w =
        (Inr (), w\<lparr>store := \<lparr>name = data_name p, openaiApiKey = openai_api_key p,
                               avatarUrl = avatarUrl (store w)\<rparr>,
                    snackbar := snackbar w @ [\<lparr>variant = ''error'', message = None\<rparr>]\<rparr>)
   \<and> (\<not> isAxiosError e \<longrightarrow>
      sync (Inr p) during1 (Inl e) during2 w =
        (Inr (), w\<lparr>store := \<lparr>name = data_name p, openaiApiKey = openai_api_key p,
                               avatarUrl = avatarUrl (store w)\<rparr>\<rparr>))"
  by (simp add: sync_def getUserInfo_no_handle getAvatarUrl_detail getAvatarUrl_no_response
      getAvatarUrl_not_axios setUserInfo_def enqueueSnackbar_def interleave_def)

theorem avatar_fetch_failure_witness:
  "sync (Inr ann) (\<lambda>s. s) (Inl (AxiosError (Some \<lparr>status = 500, data = Payload (Some ''server error'')\<rparr>))) (\<lambda>s. s)
      (ann_world\<lparr>store := (store ann_world)\<lparr>name := None, openaiApiKey := None\<rparr>\<rparr>) =
     (Inr (), \<lparr>store = \<lparr>name = Some ''Ann'', openaiApiKey = Some ''sk-123'', avatarUrl = Some (BlobURL 0)\<rparr>,
              snackbar = [\<lparr>variant = ''error'', message = Some ''server error''\<rparr>],
              objectURLs = [[137, 80, 78, 71]]\<rparr>)
   \<and> sync (Inr ann) (\<lambda>s. s) (Inl TypeError) (\<lambda>s. s) mounted =
     (Inr (), \<lparr>store = \<lparr>name = Some ''Ann'', openaiApiKey = Some ''sk-123'', avatarUrl = None\<rparr>,
              snackbar = [], objectURLs = []\<rparr>)"
  using avatar_fetch_failure [of "\<lparr>status = 500, data = Payload (Some ''server error'')\<rparr>" "Some ''server error''"
      ann "\<lambda>s. s" "\<lambda>s. s" "ann_world\<lparr>store := (store ann_world)\<lparr>name := None, openaiApiKey := None\<rparr>\<rparr>" TypeError]
    avatar_fetch_failure [of "\<lparr>status = 500, data = Payload None\<rparr>" None ann "\<lambda>s. s" "\<lambda>s. s" mounted TypeError]
  by (simp add: ann_world_def mounted_def ann_def no_avatar_def)

text \<open>
  Claim C1 says that the merge reads the avatar from the store at merge time. It reads
  \<^verbatim>\<open>userInfo.avatarUrl\<close> of the render that started the sync: below, a task
  interleaved with the profile request puts an avatar into the store, the avatar
  request is answered with 404, the store holds that avatar right before the merge,
  and the merge writes the absent avatar of the start.
\<close>

theorem merge_reads_stale_avatar_counterexample:
  "fst (getAvatarUrl (Inl (AxiosError (Some \<lparr>status = 404, data = Payload None\<rparr>))) (\<lambda>s. s)
         (interleave (\<lambda>s. s\<lparr>avatarUrl := Some (BlobURL 0)\<rparr>) (ann_world\<lparr>store := no_avatar\<rparr>))) = Inr None
   \<and> avatarUrl (store (snd (getAvatarUrl (Inl (AxiosError (Some \<lparr>status = 404, data = Payload None\<rparr>))) (\<lambda>s. s)
         (interleave (\<lambda>s. s\<lparr>avatarUrl := Some (BlobURL 0)\<rparr>) (ann_world\<lparr>store := no_avatar\<rparr>))))) = Some (BlobURL 0)
   \<and> avatarUrl (store (snd (sync (Inr ann) (\<lambda>s. s\<lparr>avatarUrl := Some (BlobURL 0)\<rparr>)
         (Inl (AxiosError (Some \<lparr>status = 404, data = Payload None\<rparr>))) (\<lambda>s. s)
         (ann_world\<lparr>store := no_avatar\<rparr>)))) = None"
  by (simp add: sync_def getUserInfo_no_handle getAvatarUrl_404 setUserInfo_def interleave_def
      ann_world_def no_avatar_def)

text \<open>
  Claim C1, amended. Whenever \<^verbatim>\<open>getAvatarUrl\<close> returns no handle, the profile written
  to the store has the fetched name and key and the avatar of the \<^verbatim>\<open>userInfo\<close> that
  \<^verbatim>\<open>getUserInfo\<close> closes over, whatever interleaved tasks did to the store; for the
  sync started by the effect, that is the avatar the store held when the sync started.
\<close>

theorem merge_reuses_captured_avatar:
  assumes "fst (getAvatarUrl getAvatar during2 (interleave during1 w)) = Inr None"
  shows "store (snd (getUserInfo userInfo (Inr p) during1 getAvatar during2 w)) =
           \<lparr>name = data_name p, openaiApiKey = openai_api_key p, avatarUrl = avatarUrl userInfo\<rparr>
         \<and> avatarUrl (store (snd (sync (Inr p) during1 getAvatar during2 w))) = avatarUrl (store w)"
proof -
  obtain w' where "getAvatarUrl getAvatar during2 (interleave during1 w) = (Inr None, w')"
    using assms by (cases "getAvatarUrl getAvatar during2 (interleave during1 w)") simp
  then show ?thesis
    by (simp add: sync_def getUserInfo_no_handle setUserInfo_def)
qed

theorem merge_reuses_captured_avatar_witness:
  "store (snd (getUserInfo (store ann_world) (Inr ann) (\<lambda>s. s\<lparr>avatarUrl := None\<rparr>)
      (Inl (AxiosError (Some \<lparr>status = 404, data = Payload None\<rparr>))) (\<lambda>s. s) ann_world)) =
     \<lparr>name = Some ''Ann'', openaiApiKey = Some ''sk-123'', avatarUrl = Some (BlobURL 0)\<rparr>
   \<and> avatarUrl (store (snd (sync (Inr ann) (\<lambda>s. s\<lparr>avatarUrl := None\<rparr>)
      (Inl (AxiosError (Some \<lparr>status = 404, data = Payload None\<rparr>))) (\<lambda>s. s) ann_world))) = Some (BlobURL 0)"
proof -
  have "fst (getAvatarUrl (Inl (AxiosError (Some \<lparr>status = 404, data = Payload None\<rparr>))) (\<lambda>s. s)
          (interleave (\<lambda>s. s\<lparr>avatarUrl := None\<rparr>) ann_world)) = Inr None"
    by (simp add: getAvatarUrl_404)
  from merge_reuses_captured_avatar [OF this, of "store ann_world" ann]
  show ?thesis by (simp add: ann_world_def ann_def)
qed

section \<open>Claims about \<^verbatim>\<open>setAvatarBlob\<close>, the effect and the context\<close>

lemma setAvatarBlob_eq:
  "decodeBase64Data blob w = (Inr url, w') \<Longrightarrow>
   setAvatarBlob userInfo blob during w = (Inr (), w'\<lparr>store := userInfo\<lparr>avatarUrl := Some url\<rparr>\<rparr>)"
  by (simp add: setAvatarBlob_def setUserInfo_def interleave_def)

text \<open>
  Claim C5 says that name and key after \<^verbatim>\<open>setAvatarBlob\<close> are those of the store at
  the time of the call. The function writes \<^verbatim>\<open>{...userInfo, avatarUrl: url}\<close> with the
  \<^verbatim>\<open>userInfo\<close> of the render that created it: below, a consumer holds the setter of
  the first render and calls it after a sync has filled the store; the name is lost.
\<close>

theorem setAvatarBlob_stale_counterexample:
  "useUserInfo (Some no_avatar) = Inr (Some no_avatar, SetUserInfo, SetAvatarBlob no_avatar)
   \<and> name (store ann_world) = Some ''Ann''
   \<and> name (store (snd (call (SetAvatarBlob no_avatar) (map of_char ''TWFu'') (\<lambda>s. s) ann_world))) = None"
proof -
  obtain buf where "decodeBase64Data (map of_char ''TWFu'') ann_world =
      (Inr (BlobURL (length (objectURLs ann_world))), ann_world\<lparr>objectURLs := objectURLs ann_world @ [buf]\<rparr>)"
    using decodeBase64Data_total [of "map of_char ''TWFu''" ann_world] by blast
  from setAvatarBlob_eq [OF this, of no_avatar "\<lambda>s. s"] show ?thesis
    by (simp add: useUserInfo_def useContext_def Provider_value_def ann_world_def no_avatar_def)
qed

text \<open>
  Claim C5, amended. \<^verbatim>\<open>setAvatarBlob\<close> always decodes, and then replaces the store by
  the \<^verbatim>\<open>userInfo\<close> of the render that created the setter with the decoded handle as
  avatar. When that \<^verbatim>\<open>userInfo\<close> is the store's value at the time of the call (the
  setter of the latest render), name and key stay as they were and only the avatar
  changes.
\<close>

theorem setAvatarBlob_frame:
  "\<exists>url w'. decodeBase64Data blob w = (Inr url, w')
     \<and> setAvatarBlob userInfo blob during w = (Inr (), w'\<lparr>store := userInfo\<lparr>avatarUrl := Some url\<rparr>\<rparr>)
     \<and> name (store (snd (setAvatarBlob (store w) blob during w))) = name (store w)
     \<and> openaiApiKey (store (snd (setAvatarBlob (store w) blob during w))) = openaiApiKey (store w)
     \<and> avatarUrl (store (snd (setAvatarBlob (store w) blob during w))) = Some url"
proof -
  obtain url w' where d: "decodeBase64Data blob w = (Inr url, w')"
    using decodeBase64Data_total [of blob w] by blast
  show ?thesis
    using d setAvatarBlob_eq [OF d, of userInfo during] setAvatarBlob_eq [OF d, of "store w" during]
    by simp
qed

theorem setAvatarBlob_frame_witness:
  "setAvatarBlob (store ann_world) (map of_char ''TWFu'') (\<lambda>s. s) ann_world =
     (Inr (),
      \<lparr>store = \<lparr>name = Some ''Ann'', openaiApiKey = Some ''sk-123'', avatarUrl = Some (BlobURL 1)\<rparr>,
       snackbar = [],
       objectURLs = [[137, 80, 78, 71], [77, 97, 110]]\<rparr>)"
proof -
  have "decodeBase64Data (map of_char ''TWFu'') ann_world =
          (Inr (BlobURL 1), ann_world\<lparr>objectURLs := [[137, 80, 78, 71], [77, 97, 110]]\<rparr>)"
    by (simp only: decodeBase64Data_eq Buffer_from_base64_examples)
       (simp add: createObjectURL_def ann_world_def)
  with setAvatarBlob_frame [of "map of_char ''TWFu''" ann_world "store ann_world" "\<lambda>s. s"]
  show ?thesis by (auto simp: ann_world_def)
qed

lemma renders_Some: "renders (Some a) signal = risingEdges (a # signal)"
  by (induction signal arbitrary: a) (auto simp: depsChanged_def effect_def)

lemma getUserInfo_calls_edges: "getUserInfo_calls signal = risingEdges (False # signal)"
  by (cases signal) (simp_all add: getUserInfo_calls_def renders_Some depsChanged_def effect_def)

lemma risingEdges_append:
  "risingEdges (xs @ a # ys) = risingEdges (xs @ [a]) + risingEdges (a # ys)"
  by (induction xs rule: risingEdges.induct) simp_all

lemma risingEdges_constant: "risingEdges (b # replicate n b) = 0"
  by (induction n) simp_all

text \<open>
  Claim C6 counts one sync per change of the signal from false to true and none while
  it stays true. The effect also runs after the first render: a provider mounted while
  the signal is true syncs once although the signal never changed.
\<close>

theorem sync_once_per_edge_counterexample:
  "getUserInfo_calls [True, True] = 1 \<and> risingEdges [True, True] = 0"
  by (simp add: getUserInfo_calls_def depsChanged_def effect_def)

text \<open>
  Claim C6, amended. The number of syncs is the number of changes from false to true
  of the signal with a false put in front: one sync when the provider is mounted with
  a true signal, and one per later change from false to true. A signal that stays
  false from the mount on gives none, staying at a value adds none, and after a true
  signal the sequence false, true adds exactly one.
\<close>

theorem sync_once_per_edge:
  "getUserInfo_calls signal = risingEdges (False # signal)
   \<and> getUserInfo_calls (replicate n False) = 0
   \<and> getUserInfo_calls (signal @ b # replicate n b) = getUserInfo_calls (signal @ [b])
   \<and> getUserInfo_calls (signal @ [True, False, True]) = getUserInfo_calls (signal @ [True]) + 1"
proof -
  have "risingEdges ((False # signal) @ b # replicate n b) = risingEdges ((False # signal) @ [b])"
    by (simp only: risingEdges_append [of _ b "replicate n b"] risingEdges_constant add_0_right)
  moreover have "risingEdges ((False # signal) @ True # [False, True]) = risingEdges ((False # signal) @ [True]) + 1"
    by (simp only: risingEdges_append [of _ True "[False, True]"]) simp
  moreover have "risingEdges (False # replicate n False) = 0"
    by (rule risingEdges_constant)
  ultimately show ?thesis
    by (simp add: getUserInfo_calls_edges)
qed

theorem sync_once_per_edge_witness:
  "getUserInfo_calls [False, False, True, True, False, True] = 2
   \<and> getUserInfo_calls [True, True, False, True, True] = 2
   \<and> getUserInfo_calls [False, False] = 0"
  using sync_once_per_edge [of "[False, False, True, True, False, True]" 0 False]
    sync_once_per_edge [of "[True, True, False, True, True]" 0 False]
    sync_once_per_edge [of "[False, False]" 0 False]
  by simp

text \<open>
  Claim C9. \<^verbatim>\<open>useUserInfo\<close> never throws: outside a provider it returns the default
  triple (no store value, two no-ops), below a provider that provider's triple; neither
  the default value nor a provided value is \<^verbatim>\<open>undefined\<close>, so the check never fires.
\<close>

theorem useUserInfo_never_throws:
  "useUserInfo None = Inr (None, NoopDispatch, NoopAsync)
   \<and> useUserInfo (Some userInfo) = Inr (Some userInfo, SetUserInfo, SetAvatarBlob userInfo)
   \<and> UserInfoContext \<noteq> None \<and> Provider_value userInfo \<noteq> None"
  by (simp add: useUserInfo_def useContext_def UserInfoContext_def Provider_value_def)

section \<open>Claims about the decoder and about exceptions\<close>

text \<open>
  Claim C7. For every byte sequence, \<^verbatim>\<open>decodeBase64Data\<close> on its base64 encoding,
  with its padding or without, returns a handle that refers to exactly these bytes;
  and for every text the bytes the returned handle refers to are the same in every
  world: they depend on the text alone.
\<close>

theorem decode_roundtrip:
  "(\<exists>url w'. decodeBase64Data (base64_encode B) w = (Inr url, w') \<and> referenced w' url = Some B)
   \<and> (\<exists>url w'. decodeBase64Data (takeWhile (\<lambda>c. c \<noteq> 61) (base64_encode B)) w = (Inr url, w')
          \<and> referenced w' url = Some B)
   \<and> (\<exists>buf. \<forall>w. \<exists>url w'. decodeBase64Data base64Data w = (Inr url, w') \<and> referenced w' url = Some buf)"
proof (intro conjI)
  show "\<exists>url w'. decodeBase64Data (base64_encode B) w = (Inr url, w') \<and> referenced w' url = Some B"
    by (simp add: decodeBase64Data_eq Buffer_from_base64_encode createObjectURL_def)
next
  show "\<exists>url w'. decodeBase64Data (takeWhile (\<lambda>c. c \<noteq> 61) (base64_encode B)) w = (Inr url, w')
          \<and> referenced w' url = Some B"
    by (simp add: decodeBase64Data_eq Buffer_from_base64_unpadded createObjectURL_def)
next
  obtain buf where "Buffer_from_base64 base64Data = Inr buf"
    using Buffer_from_base64_total by blast
  then have "\<forall>w. \<exists>url w'. decodeBase64Data base64Data w = (Inr url, w') \<and> referenced w' url = Some buf"
    by (simp add: decodeBase64Data_eq createObjectURL_def)
  then show "\<exists>buf. \<forall>w. \<exists>url w'. decodeBase64Data base64Data w = (Inr url, w') \<and> referenced w' url = Some buf"
    by blast
qed

theorem decode_roundtrip_witness:
  "base64_encode [77, 97] = [84, 87, 69, 61]
   \<and> (\<exists>url w'. decodeBase64Data [84, 87, 69, 61] mounted = (Inr url, w') \<and> referenced w' url = Some [77, 97])
   \<and> (\<exists>url w'. decodeBase64Data [84, 87, 69] mounted = (Inr url, w') \<and> referenced w' url = Some [77, 97])"
  using decode_roundtrip [of "[77, 97]" mounted "[]"] by (simp add: code_def)

text \<open>
  Claim C10. For every string \<^verbatim>\<open>decodeBase64Data\<close> returns a handle, which refers to
  bytes, and so \<^verbatim>\<open>setAvatarBlob\<close> completes normally; the characters outside the
  alphabet (other than \<^verbatim>\<open>'='\<close>, where the text ends) are dropped: removing them from
  the input beforehand does not change the decoded bytes.
\<close>

theorem decoder_total:
  "(\<exists>url w'. decodeBase64Data base64Data w = (Inr url, w') \<and> referenced w' url \<noteq> None)
   \<and> fst (setAvatarBlob userInfo base64Data during w) = Inr ()
   \<and> Buffer_from_base64 (filter (\<lambda>c. isBase64Char c \<or> c = 61) base64Data) = Buffer_from_base64 base64Data"
proof -
  obtain buf where d: "decodeBase64Data base64Data w =
      (Inr (BlobURL (length (objectURLs w))), w\<lparr>objectURLs := objectURLs w @ [buf]\<rparr>)"
    using decodeBase64Data_total by blast
  then have "referenced (w\<lparr>objectURLs := objectURLs w @ [buf]\<rparr>) (BlobURL (length (objectURLs w))) \<noteq> None"
    by simp
  with d setAvatarBlob_eq [OF d, of userInfo during] Buffer_from_base64_lenient [of base64Data]
  show ?thesis by simp
qed

theorem decoder_total_witness:
  "(\<exists>url w'. decodeBase64Data [84, 33, 87] mounted = (Inr url, w') \<and> referenced w' url \<noteq> None)
   \<and> fst (setAvatarBlob no_avatar [84, 33, 87] (\<lambda>s. s) mounted) = Inr ()
   \<and> Buffer_from_base64 [84, 87] = Buffer_from_base64 [84, 33, 87]"
  using decoder_total [of "[84, 33, 87]" mounted no_avatar "\<lambda>s. s"]
  by (simp add: isBase64Char_def)

lemma call_completes: "fst (call setter blob during w) = Inr ()"
proof (cases setter)
  case NoopAsync
  then show ?thesis by simp
next
  case (SetAvatarBlob userInfo)
  obtain url w' where "decodeBase64Data blob w = (Inr url, w')"
    using decodeBase64Data_total by blast
  from setAvatarBlob_eq [OF this] SetAvatarBlob show ?thesis by simp
qed

text \<open>
  Claim C8. Whatever the two requests return or throw and whatever text is passed,
  \<^verbatim>\<open>getUserInfo\<close> (and so the sync the effect starts), \<^verbatim>\<open>setAvatarBlob\<close>, either
  setter a context value can hold, and \<^verbatim>\<open>useUserInfo\<close> complete normally: none throws.
\<close>

theorem no_exception_escapes:
  "fst (getUserInfo userInfo getUserInfo_result during1 getAvatar during2 w) = Inr ()
   \<and> fst (sync getUserInfo_result during1 getAvatar during2 w) = Inr ()
   \<and> fst (setAvatarBlob userInfo blob during w) = Inr ()
   \<and> fst (call setter blob during w) = Inr ()
   \<and> (\<exists>context. useUserInfo enclosing = Inr context)"
proof -
  have "fst (setAvatarBlob userInfo blob during w) = Inr ()"
    using call_completes [of "SetAvatarBlob userInfo" blob during w] by simp
  moreover have "\<exists>context. useUserInfo enclosing = Inr context"
    by (cases enclosing) (simp_all add: useUserInfo_def useContext_def UserInfoContext_def Provider_value_def)
  ultimately show ?thesis
    by (simp add: getUserInfo_completes sync_def call_completes)
qed

theorem no_exception_escapes_witness:
  "fst (sync (Inr ann) (\<lambda>s. s) (Inl (AxiosError (Some \<lparr>status = 500, data = Nullish\<rparr>))) (\<lambda>s. s) mounted) = Inr ()
   \<and> snd (sync (Inr ann) (\<lambda>s. s) (Inl (AxiosError (Some \<lparr>status = 500, data = Nullish\<rparr>))) (\<lambda>s. s) mounted) =
       mounted\<lparr>snackbar := [\<lparr>variant = ''error'', message = Some ''Error getting user info''\<rparr>]\<rparr>"
  using no_exception_escapes [of no_avatar "Inr ann" "\<lambda>s. s" "Inl (AxiosError (Some \<lparr>status = 500, data = Nullish\<rparr>))"
      "\<lambda>s. s" mounted "[]" "\<lambda>s. s" NoopAsync None]
  by (simp add: sync_def getUserInfo_def getAvatarUrl_nullish interleave_def enqueueSnackbar_def mounted_def)

end
